theory Spec2Isabelle
  imports Main
begin

section \<open>Data model\<close>

text \<open>
  A Python \<open>str\<close> is a sequence of Unicode code points; \<open>detect_lang\<close> inspects
  the text one code point at a time, so a text is a list of code points (natural numbers).
  Language tags are only ever compared for equality with the ASCII literals
  \<open>"auto"\<close>, \<open>"en"\<close>, \<open>"zh-CN"\<close>, \<open>"zh-TW"\<close>; they are byte strings here.
  A cache key is the tuple \<open>(text, src, tgt)\<close> of line 136.
\<close>

type_synonym pystr = "nat list"
type_synonym tag = string
type_synonym key = "pystr \<times> tag \<times> tag"

text \<open>
  What the routine does besides returning a value: it tests and writes the dictionary
  \<open>translation_cache\<close> and it calls the two Marian models and the two OpenCC converters.
  Each such effect is one event of the trace kept beside the cache.
\<close>

datatype event =
    Cache_lookup key
  | Cache_store key pystr
  | Generate_en_zh pystr
  | Generate_zh_en pystr
  | Convert_s2t pystr
  | Convert_t2s pystr

text \<open>
  The parts of the program that live in libraries, taken as parameters:
  \<^item> \<open>isalpha\<close>: Python's \<open>str.isalpha\<close> on one code point (a table of the Unicode database);
  \<^item> \<open>translate_en_zh\<close>: lines 141-143 (tokenizer, \<open>model_en_zh.generate\<close>, decoding of the
    first output), and \<open>translate_zh_en\<close>: lines 146-148;
  \<^item> \<open>convert_s2t\<close>: \<open>converter_s2t.convert\<close> (line 151), \<open>convert_t2s\<close>: line 154.
  A capability that raises returns \<open>None\<close>; the exception leaves
  \<open>translate_text_process\<close> uncaught.
\<close>

record capabilities =
  isalpha :: "nat \<Rightarrow> bool"
  translate_en_zh :: "pystr \<Rightarrow> pystr option"
  translate_zh_en :: "pystr \<Rightarrow> pystr option"
  convert_s2t :: "pystr \<Rightarrow> pystr option"
  convert_t2s :: "pystr \<Rightarrow> pystr option"

record state =
  translation_cache :: "key \<rightharpoonup> pystr"
  trace :: "event list"

text \<open>Line 120: the cache starts empty.\<close>

definition initial_state :: state where
  "initial_state = \<lparr>translation_cache = Map.empty, trace = []\<rparr>"

definition log :: "event \<Rightarrow> state \<Rightarrow> state" where
  "log e st = st\<lparr>trace := trace st @ [e]\<rparr>"

text \<open>Line 167: \<open>translation_cache[key] = result\<close>.\<close>

definition store :: "key \<Rightarrow> pystr \<Rightarrow> state \<Rightarrow> state" where
  "store k v st =
     st\<lparr>translation_cache := (translation_cache st)(k \<mapsto> v),
        trace := trace st @ [Cache_store k v]\<rparr>"

section \<open>The language resolver\<close>

text \<open>
  Lines 123-126. Each \<open>sum\<close> adds up Booleans (\<open>True\<close> is 1) over the characters
  of the text, in Python's unbounded integers.
\<close>

definition detect_lang :: "(nat \<Rightarrow> bool) \<Rightarrow> pystr \<Rightarrow> tag" where
  "detect_lang alpha txt =
     (let zh = sum_list (map (\<lambda>c. if 0x4E00 \<le> c \<and> c \<le> 0x9FFF then 1 else 0) txt) :: int;
          en = sum_list (map (\<lambda>c. if alpha c then 1 else 0) txt) :: int
      in if zh > en then ''zh-CN'' else ''en'')"

section \<open>The translation router\<close>

text \<open>
  Lines 129-168. The state is threaded through; a hop that raises ends the call at
  once, with the state the hop left behind and nothing stored for the outer key.
\<close>

function translate_text_process ::
  "capabilities \<Rightarrow> pystr \<Rightarrow> tag \<Rightarrow> tag \<Rightarrow> state \<Rightarrow> pystr option \<times> state" where
  "translate_text_process caps txt src tgt st =
     (if txt = [] then (Some [], st)
      else
        let src1 = (if src = ''auto'' then detect_lang (isalpha caps) txt else src);
            key = (txt, src1, tgt);
            st0 = log (Cache_lookup key) st
        in case translation_cache st0 key of
             Some cached \<Rightarrow> (Some cached, st0)
           | None \<Rightarrow>
               (case
                  (if src1 = ''en'' \<and> tgt = ''zh-CN'' then
                     (translate_en_zh caps txt, log (Generate_en_zh txt) st0)
                   else if src1 = ''zh-CN'' \<and> tgt = ''en'' then
                     (translate_zh_en caps txt, log (Generate_zh_en txt) st0)
                   else if src1 = ''zh-CN'' \<and> tgt = ''zh-TW'' then
                     (convert_s2t caps txt, log (Convert_s2t txt) st0)
                   else if src1 = ''zh-TW'' \<and> tgt = ''zh-CN'' then
                     (convert_t2s caps txt, log (Convert_t2s txt) st0)
                   else if src1 = ''en'' \<and> tgt = ''zh-TW'' then
                     (case translate_text_process caps txt ''en'' ''zh-CN'' st0 of
                        (None, st1) \<Rightarrow> (None, st1)
                      | (Some mid, st1) \<Rightarrow>
                          translate_text_process caps mid ''zh-CN'' ''zh-TW'' st1)
                   else if src1 = ''zh-TW'' \<and> tgt = ''en'' then
                     (case translate_text_process caps txt ''zh-TW'' ''zh-CN'' st0 of
                        (None, st1) \<Rightarrow> (None, st1)
                      | (Some mid, st1) \<Rightarrow>
                          translate_text_process caps mid ''zh-CN'' ''en'' st1)
                   else (Some txt, st0))
                of
                  (None, st2) \<Rightarrow> (None, st2)
                | (Some result, st2) \<Rightarrow> (Some result, store key result st2)))"
  by pat_completeness auto
text \<open>
  Only the two composed pairs recurse, and their hops are direct pairs: the depth of
  the recursion is at most two.
\<close>

termination
  apply (relation "measure (\<lambda>(caps, txt, src, tgt, st).
          if (src = ''auto'' \<or> src = ''en'' \<or> src = ''zh-TW'') \<and> (tgt = ''zh-TW'' \<or> tgt = ''en'')
          then 1 else 0)")
      apply simp
     apply (simp split: if_splits)
    apply (simp split: if_splits)
   apply (simp split: if_splits)
  apply (simp split: if_splits)
  done

declare translate_text_process.simps [simp del]

section \<open>Vocabulary of the specification\<close>

text \<open>The counts of the language resolver, as the specification words them.\<close>

definition in_cjk :: "nat \<Rightarrow> bool" where
  "in_cjk c = (0x4E00 \<le> c \<and> c \<le> 0x9FFF)"

definition zhCount :: "pystr \<Rightarrow> nat" where
  "zhCount txt = length (filter in_cjk txt)"

definition alphaCount :: "(nat \<Rightarrow> bool) \<Rightarrow> pystr \<Rightarrow> nat" where
  "alphaCount alpha txt = length (filter alpha txt)"

text \<open>
  A fact of the Unicode database (version 14 and later, where the whole block
  U+4E00-U+9FFF is assigned with general category Lo): every code point of the block
  is alphabetic.
\<close>

definition cjk_is_alpha :: "(nat \<Rightarrow> bool) \<Rightarrow> bool" where
  "cjk_is_alpha alpha = (\<forall>c \<in> {0x4E00 .. 0x9FFF}. alpha c)"

text \<open>The source tag after step 2 (lines 133-134).\<close>

definition resolved :: "capabilities \<Rightarrow> pystr \<Rightarrow> tag \<Rightarrow> tag" where
  "resolved caps txt src = (if src = ''auto'' then detect_lang (isalpha caps) txt else src)"

text \<open>The routing table: four direct pairs and two composed pairs.\<close>

definition direct :: "tag \<Rightarrow> tag \<Rightarrow> bool" where
  "direct s g = ((s = ''en'' \<and> g = ''zh-CN'') \<or> (s = ''zh-CN'' \<and> g = ''en'')
     \<or> (s = ''zh-CN'' \<and> g = ''zh-TW'') \<or> (s = ''zh-TW'' \<and> g = ''zh-CN''))"

definition composed :: "tag \<Rightarrow> tag \<Rightarrow> bool" where
  "composed s g = ((s = ''en'' \<and> g = ''zh-TW'') \<or> (s = ''zh-TW'' \<and> g = ''en''))"

definition routed :: "tag \<Rightarrow> tag \<Rightarrow> bool" where
  "routed s g = (direct s g \<or> composed s g)"

text \<open>
  What a pair that is not composed does on a cache miss: the capability's answer and
  the invocation it makes (none for the passthrough).
\<close>

definition invoke :: "capabilities \<Rightarrow> tag \<Rightarrow> tag \<Rightarrow> pystr \<Rightarrow> pystr option \<times> event list" where
  "invoke caps s g txt =
     (if s = ''en'' \<and> g = ''zh-CN'' then (translate_en_zh caps txt, [Generate_en_zh txt])
      else if s = ''zh-CN'' \<and> g = ''en'' then (translate_zh_en caps txt, [Generate_zh_en txt])
      else if s = ''zh-CN'' \<and> g = ''zh-TW'' then (convert_s2t caps txt, [Convert_s2t txt])
      else if s = ''zh-TW'' \<and> g = ''zh-CN'' then (convert_t2s caps txt, [Convert_t2s txt])
      else (Some txt, []))"

text \<open>
  The second hop of a composed pair: an empty intermediate text comes back empty, and the
  capability is applied to any other.
\<close>

definition hop :: "(pystr \<Rightarrow> pystr option) \<Rightarrow> pystr \<Rightarrow> pystr option" where
  "hop f mid = (if mid = [] then Some [] else f mid)"

text \<open>The value of a nonempty text under a resolved pair, with no cache involved.\<close>

definition expected :: "capabilities \<Rightarrow> pystr \<Rightarrow> tag \<Rightarrow> tag \<Rightarrow> pystr option" where
  "expected caps txt s g =
     (if s = ''en'' \<and> g = ''zh-TW'' then
        Option.bind (translate_en_zh caps txt) (hop (convert_s2t caps))
      else if s = ''zh-TW'' \<and> g = ''en'' then
        Option.bind (convert_t2s caps txt) (hop (translate_zh_en caps))
      else fst (invoke caps s g txt))"

text \<open>
  The invariant of the cache: every entry has a nonempty text and a resolved source, holds
  the value of its key, and an entry of a composed pair comes with the entries of its hops.
\<close>

definition cache_ok :: "capabilities \<Rightarrow> (key \<rightharpoonup> pystr) \<Rightarrow> bool" where
  "cache_ok caps c =
     (\<forall>txt s g v. c (txt, s, g) = Some v \<longrightarrow>
        txt \<noteq> [] \<and> s \<noteq> ''auto'' \<and> expected caps txt s g = Some v
        \<and> (s = ''en'' \<and> g = ''zh-TW'' \<longrightarrow>
             (\<exists>mid. c (txt, ''en'', ''zh-CN'') = Some mid
                \<and> (mid \<noteq> [] \<longrightarrow> c (mid, ''zh-CN'', ''zh-TW'') = Some v)))
        \<and> (s = ''zh-TW'' \<and> g = ''en'' \<longrightarrow>
             (\<exists>mid. c (txt, ''zh-TW'', ''zh-CN'') = Some mid
                \<and> (mid \<noteq> [] \<longrightarrow> c (mid, ''zh-CN'', ''en'') = Some v))))"

text \<open>The states of the process: the initial one and those any call leaves behind.\<close>

inductive reachable :: "capabilities \<Rightarrow> state \<Rightarrow> bool" for caps :: capabilities where
  reachable_init: "reachable caps initial_state"
| reachable_call:
    "reachable caps st \<Longrightarrow> translate_text_process caps txt src tgt st = (r, st')
       \<Longrightarrow> reachable caps st'"

text \<open>The events a call adds to the trace, and which of them invoke a capability.\<close>

definition events_since :: "state \<Rightarrow> state \<Rightarrow> event list" where
  "events_since st st' = drop (length (trace st)) (trace st')"

fun is_invocation :: "event \<Rightarrow> bool" where
  "is_invocation (Cache_lookup k) = False"
| "is_invocation (Cache_store k v) = False"
| "is_invocation (Generate_en_zh t) = True"
| "is_invocation (Generate_zh_en t) = True"
| "is_invocation (Convert_s2t t) = True"
| "is_invocation (Convert_t2s t) = True"

section \<open>Stub capabilities\<close>

text \<open>
  A sample of \<open>str.isalpha\<close>: the ASCII letters and the CJK Unified Ideographs block.
\<close>

definition sample_isalpha :: "nat \<Rightarrow> bool" where
  "sample_isalpha c = ((0x41 \<le> c \<and> c \<le> 0x5A) \<or> (0x61 \<le> c \<and> c \<le> 0x7A)
     \<or> (0x4E00 \<le> c \<and> c \<le> 0x9FFF))"

text \<open>
  Stub models that answer U+4F53 U+80B2 and \<open>hi\<close>, and stub converters that exchange
  U+4F53 (simplified) and U+9AD4 (traditional).
\<close>

definition stub_caps :: capabilities where
  "stub_caps =
     \<lparr>isalpha = sample_isalpha,
      translate_en_zh = (\<lambda>t. Some [0x4F53, 0x80B2]),
      translate_zh_en = (\<lambda>t. Some [0x68, 0x69]),
      convert_s2t = (\<lambda>t. Some (map (\<lambda>c. if c = 0x4F53 then 0x9AD4 else c) t)),
      convert_t2s = (\<lambda>t. Some (map (\<lambda>c. if c = 0x9AD4 then 0x4F53 else c) t))\<rparr>"

text \<open>
  Stub models that produce no output, and stub converters that append an ideographic
  full stop (U+3002) to what they are given.
\<close>

definition silent_caps :: capabilities where
  "silent_caps =
     \<lparr>isalpha = sample_isalpha,
      translate_en_zh = (\<lambda>t. Some []),
      translate_zh_en = (\<lambda>t. Some []),
      convert_s2t = (\<lambda>t. Some (t @ [0x3002])),
      convert_t2s = (\<lambda>t. Some (t @ [0x3002]))\<rparr>"

text \<open>Capabilities that raise on every text: unreachable models and broken converters.\<close>

definition failing_caps :: capabilities where
  "failing_caps =
     \<lparr>isalpha = sample_isalpha,
      translate_en_zh = (\<lambda>t. None),
      translate_zh_en = (\<lambda>t. None),
      convert_s2t = (\<lambda>t. None),
      convert_t2s = (\<lambda>t. None)\<rparr>"

section \<open>The language resolver: properties\<close>

lemma sum_list_indicator:
  "sum_list (map (\<lambda>c. if P c then 1 else 0) xs) = int (length (filter P xs))"
  by (induction xs) simp_all

lemma detect_lang_by_counts:
  "detect_lang alpha txt = (if zhCount txt > alphaCount alpha txt then ''zh-CN'' else ''en'')"
proof -
  have "sum_list (map (\<lambda>c. if 0x4E00 \<le> c \<and> c \<le> 0x9FFF then 1 else 0) txt) = int (zhCount txt)"
    using sum_list_indicator [of in_cjk "txt"] by (simp add: zhCount_def in_cjk_def)
  moreover have "sum_list (map (\<lambda>c. if alpha c then 1 else 0) txt) = int (alphaCount alpha txt)"
    using sum_list_indicator [of alpha "txt"] by (simp add: alphaCount_def)
  ultimately show ?thesis
    by (simp add: detect_lang_def Let_def)
qed

lemma detect_lang_not_auto: "detect_lang alpha txt \<noteq> ''auto''"
  by (simp add: detect_lang_by_counts)

lemma resolved_not_auto: "resolved caps txt src \<noteq> ''auto''"
  by (simp add: resolved_def detect_lang_not_auto)

lemma zhCount_le_alphaCount:
  assumes "cjk_is_alpha alpha"
  shows "zhCount txt \<le> alphaCount alpha txt"
proof -
  have "length (filter in_cjk txt) \<le> length (filter alpha txt)"
  proof (induction "txt")
    case Nil
    show ?case by simp
  next
    case (Cons c cs)
    have "in_cjk c \<Longrightarrow> alpha c"
      using assms by (simp add: cjk_is_alpha_def in_cjk_def)
    with Cons show ?case by auto
  qed
  then show ?thesis by (simp add: zhCount_def alphaCount_def)
qed

text \<open>
  Claim C3. The resolver answers \<open>zh-CN\<close> exactly when the number of characters in
  U+4E00-U+9FFF is strictly greater than the number of alphabetic characters, and
  \<open>en\<close> otherwise; the empty string gives \<open>en\<close>; the answer is always one of these two
  tags, so never \<open>auto\<close> and never \<open>zh-TW\<close>. The function takes and returns values only:
  it has no state to change and no branch that raises.
\<close>

theorem detect_lang_two_outcomes:
  "detect_lang alpha txt = (if zhCount txt > alphaCount alpha txt then ''zh-CN'' else ''en'')
   \<and> (detect_lang alpha txt = ''zh-CN'') = (zhCount txt > alphaCount alpha txt)
   \<and> (detect_lang alpha txt = ''en'') = (\<not> zhCount txt > alphaCount alpha txt)
   \<and> detect_lang alpha [] = ''en''
   \<and> detect_lang alpha txt \<in> {''zh-CN'', ''en''}
   \<and> detect_lang alpha txt \<noteq> ''auto''
   \<and> detect_lang alpha txt \<noteq> ''zh-TW''"
  by (simp add: detect_lang_by_counts zhCount_def alphaCount_def)

section \<open>The router, branch by branch\<close>

lemma ttp_empty: "translate_text_process caps [] src tgt st = (Some [], st)"
  by (simp add: translate_text_process.simps)

lemma ttp_hit:
  assumes "txt \<noteq> []" and "translation_cache st (txt, resolved caps txt src, tgt) = Some v"
  shows "translate_text_process caps txt src tgt st =
           (Some v, log (Cache_lookup (txt, resolved caps txt src, tgt)) st)"
  using assms
  by (subst translate_text_process.simps) (simp add: resolved_def Let_def log_def)

lemma ttp_miss:
  assumes "txt \<noteq> []" and "resolved caps txt src = rs"
    and "translation_cache st (txt, rs, tgt) = None"
  shows "translate_text_process caps txt src tgt st =
     (case
        (if rs = ''en'' \<and> tgt = ''zh-CN'' then
           (translate_en_zh caps txt, log (Generate_en_zh txt) (log (Cache_lookup (txt, rs, tgt)) st))
         else if rs = ''zh-CN'' \<and> tgt = ''en'' then
           (translate_zh_en caps txt, log (Generate_zh_en txt) (log (Cache_lookup (txt, rs, tgt)) st))
         else if rs = ''zh-CN'' \<and> tgt = ''zh-TW'' then
           (convert_s2t caps txt, log (Convert_s2t txt) (log (Cache_lookup (txt, rs, tgt)) st))
         else if rs = ''zh-TW'' \<and> tgt = ''zh-CN'' then
           (convert_t2s caps txt, log (Convert_t2s txt) (log (Cache_lookup (txt, rs, tgt)) st))
         else if rs = ''en'' \<and> tgt = ''zh-TW'' then
           (case translate_text_process caps txt ''en'' ''zh-CN'' (log (Cache_lookup (txt, rs, tgt)) st) of
              (None, st1) \<Rightarrow> (None, st1)
            | (Some mid, st1) \<Rightarrow> translate_text_process caps mid ''zh-CN'' ''zh-TW'' st1)
         else if rs = ''zh-TW'' \<and> tgt = ''en'' then
           (case translate_text_process caps txt ''zh-TW'' ''zh-CN'' (log (Cache_lookup (txt, rs, tgt)) st) of
              (None, st1) \<Rightarrow> (None, st1)
            | (Some mid, st1) \<Rightarrow> translate_text_process caps mid ''zh-CN'' ''en'' st1)
         else (Some txt, log (Cache_lookup (txt, rs, tgt)) st))
      of
        (None, st2) \<Rightarrow> (None, st2)
      | (Some result, st2) \<Rightarrow> (Some result, store (txt, rs, tgt) result st2))"
proof -
  have c: "translation_cache (log (Cache_lookup (txt, rs, tgt)) st) (txt, rs, tgt) = None"
    using assms(3) by (simp add: log_def)
  show ?thesis
    apply (subst translate_text_process.simps)
    apply (fold resolved_def)
    apply (unfold assms(2) Let_def)
    apply (simp only: assms(1) if_False c option.case)
    done
qed

lemma ttp_miss_plain:
  assumes "txt \<noteq> []" and "resolved caps txt src = rs" and "\<not> composed rs tgt"
    and "translation_cache st (txt, rs, tgt) = None"
  shows "translate_text_process caps txt src tgt st =
     (case invoke caps rs tgt txt of
        (None, es) \<Rightarrow> (None, st\<lparr>trace := trace st @ Cache_lookup (txt, rs, tgt) # es\<rparr>)
      | (Some r, es) \<Rightarrow>
          (Some r, store (txt, rs, tgt) r
             (st\<lparr>trace := trace st @ Cache_lookup (txt, rs, tgt) # es\<rparr>)))"
proof -
  have a: "\<not> (rs = ''en'' \<and> tgt = ''zh-TW'')" "\<not> (rs = ''zh-TW'' \<and> tgt = ''en'')"
    using assms(3) by (auto simp: composed_def)
  show ?thesis
    apply (subst ttp_miss [OF assms(1,2,4)])
    apply (simp only: a if_False)
    apply (simp add: invoke_def log_def split: option.splits)
    done
qed

lemma ttp_miss_en_zhTW:
  assumes "txt \<noteq> []" and "resolved caps txt src = ''en''"
    and "translation_cache st (txt, ''en'', ''zh-TW'') = None"
  shows "translate_text_process caps txt src ''zh-TW'' st =
     (case translate_text_process caps txt ''en'' ''zh-CN''
             (log (Cache_lookup (txt, ''en'', ''zh-TW'')) st) of
        (None, st1) \<Rightarrow> (None, st1)
      | (Some mid, st1) \<Rightarrow>
          (case translate_text_process caps mid ''zh-CN'' ''zh-TW'' st1 of
             (None, st2) \<Rightarrow> (None, st2)
           | (Some r, st2) \<Rightarrow> (Some r, store (txt, ''en'', ''zh-TW'') r st2)))"
  apply (subst ttp_miss [OF assms])
  apply (simp split: option.splits prod.splits)
  done

lemma ttp_miss_zhTW_en:
  assumes "txt \<noteq> []" and "resolved caps txt src = ''zh-TW''"
    and "translation_cache st (txt, ''zh-TW'', ''en'') = None"
  shows "translate_text_process caps txt src ''en'' st =
     (case translate_text_process caps txt ''zh-TW'' ''zh-CN''
             (log (Cache_lookup (txt, ''zh-TW'', ''en'')) st) of
        (None, st1) \<Rightarrow> (None, st1)
      | (Some mid, st1) \<Rightarrow>
          (case translate_text_process caps mid ''zh-CN'' ''en'' st1 of
             (None, st2) \<Rightarrow> (None, st2)
           | (Some r, st2) \<Rightarrow> (Some r, store (txt, ''zh-TW'', ''en'') r st2)))"
  apply (subst ttp_miss [OF assms])
  apply (simp split: option.splits prod.splits)
  done

text \<open>
  Claim C4. On the empty text the routine returns the empty string for every source and
  target, and the state that comes back is the state that went in: no entry is created,
  no lookup is made and no capability is invoked.
\<close>

theorem empty_text_returns_empty:
  "translate_text_process caps [] src tgt st = (Some [], st)"
  by (simp add: translate_text_process.simps)

section \<open>Resolution of the source tag\<close>

lemma detect_lang_en_if_cjk_alpha:
  assumes "cjk_is_alpha alpha" shows "detect_lang alpha t = ''en''"
  using zhCount_le_alphaCount [OF assms, of t] by (simp add: detect_lang_by_counts)

lemma ttp_resolved:
  "translate_text_process caps t src tgt st =
   translate_text_process caps t (resolved caps t src) tgt st"
proof -
  have a: "(if resolved caps t src = ''auto'' then detect_lang (isalpha caps) t
            else resolved caps t src) = resolved caps t src"
    by (simp add: resolved_not_auto)
  show ?thesis
    apply (subst translate_text_process.simps [of caps t src tgt st])
    apply (subst translate_text_process.simps [of caps t "resolved caps t src" tgt st])
    apply (simp only: a)
    apply (simp only: resolved_def)
    done
qed

text \<open>
  Claim C9. When every code point of U+4E00-U+9FFF is alphabetic for \<open>str.isalpha\<close>, each
  character counted in \<open>zh\<close> is counted in \<open>en\<close> too, so \<open>zh > en\<close> never holds: the
  resolver answers \<open>en\<close> for every string, and a call with source \<open>auto\<close> does what
  the same call with source \<open>en\<close> does.
\<close>

theorem auto_always_en:
  assumes "cjk_is_alpha (isalpha caps)"
  shows "detect_lang (isalpha caps) t = ''en''
     \<and> resolved caps t ''auto'' = ''en''
     \<and> translate_text_process caps t ''auto'' tgt st = translate_text_process caps t ''en'' tgt st"
proof -
  have d: "detect_lang (isalpha caps) t = ''en''"
    using assms by (rule detect_lang_en_if_cjk_alpha)
  then have r: "resolved caps t ''auto'' = ''en''"
    by (simp add: resolved_def)
  show ?thesis
    using d r ttp_resolved [of caps t "''auto''" tgt st] by simp
qed

theorem auto_always_en_witness:
  "cjk_is_alpha (isalpha stub_caps)
   \<and> detect_lang (isalpha stub_caps) [0x4F60, 0x597D] = ''en''
   \<and> resolved stub_caps [0x4F60, 0x597D] ''auto'' = ''en''
   \<and> translate_text_process stub_caps [0x4F60, 0x597D] ''auto'' ''en'' initial_state
       = translate_text_process stub_caps [0x4F60, 0x597D] ''en'' ''en'' initial_state"
proof -
  have h: "cjk_is_alpha (isalpha stub_caps)"
    by (simp add: stub_caps_def cjk_is_alpha_def sample_isalpha_def)
  show ?thesis
    using h auto_always_en [OF h, of "[0x4F60, 0x597D]" "''en''" initial_state] by simp
qed

lemma passthrough_fresh:
  assumes "t \<noteq> []" and "resolved caps t src = rs" and "\<not> routed rs tgt"
    and "translation_cache st (t, rs, tgt) = None"
  shows "translate_text_process caps t src tgt st =
           (Some t, store (t, rs, tgt) t (log (Cache_lookup (t, rs, tgt)) st))"
proof -
  have c: "\<not> composed rs tgt" and d: "\<not> direct rs tgt"
    using assms(3) by (simp_all add: routed_def)
  have "invoke caps rs tgt t = (Some t, [])"
    using d by (auto simp: invoke_def direct_def)
  then show ?thesis
    using ttp_miss_plain [OF assms(1,2) c assms(4)] by (simp add: log_def)
qed

text \<open>
  Claim C2. The code at the claim's first input, the two ideographs U+4F60 U+597D with
  source \<open>auto\<close> and target \<open>en\<close>: both characters are alphabetic, the counts are 2 and 2,
  the resolver answers \<open>en\<close> and not \<open>zh-CN\<close>, and the pair \<open>(en, en)\<close> passes the text
  through. At the claim's second input, \<open>hello\<close>, the resolver answers \<open>en\<close> as the
  claim says.
\<close>

theorem ni_hao_resolves_to_en:
  assumes "isalpha caps 0x4F60" and "isalpha caps 0x597D"
  shows "detect_lang (isalpha caps) [0x4F60, 0x597D] = ''en''
     \<and> resolved caps [0x4F60, 0x597D] ''auto'' = ''en''
     \<and> translate_text_process caps [0x4F60, 0x597D] ''auto'' ''en'' initial_state
         = (Some [0x4F60, 0x597D],
            store ([0x4F60, 0x597D], ''en'', ''en'') [0x4F60, 0x597D]
              (log (Cache_lookup ([0x4F60, 0x597D], ''en'', ''en'')) initial_state))
     \<and> detect_lang (isalpha caps) [0x68, 0x65, 0x6C, 0x6C, 0x6F] = ''en''
     \<and> resolved caps [0x68, 0x65, 0x6C, 0x6C, 0x6F] ''auto'' = ''en''"
proof -
  have d: "detect_lang (isalpha caps) [0x4F60, 0x597D] = ''en''"
    using assms by (simp add: detect_lang_def)
  then have r: "resolved caps [0x4F60, 0x597D] ''auto'' = ''en''"
    by (simp add: resolved_def)
  have n: "\<not> routed ''en'' ''en''"
    by (simp add: routed_def direct_def composed_def)
  have e: "translation_cache initial_state ([0x4F60, 0x597D], ''en'', ''en'') = None"
    by (simp add: initial_state_def)
  have h: "detect_lang (isalpha caps) [0x68, 0x65, 0x6C, 0x6C, 0x6F] = ''en''"
    by (simp add: detect_lang_def)
  then have hr: "resolved caps [0x68, 0x65, 0x6C, 0x6C, 0x6F] ''auto'' = ''en''"
    by (simp add: resolved_def)
  show ?thesis
    using d r h hr passthrough_fresh [OF _ r n e] by simp
qed

theorem ni_hao_resolves_to_en_witness:
  "isalpha stub_caps 0x4F60 \<and> isalpha stub_caps 0x597D
   \<and> detect_lang (isalpha stub_caps) [0x4F60, 0x597D] = ''en''
   \<and> fst (translate_text_process stub_caps [0x4F60, 0x597D] ''auto'' ''en'' initial_state)
       = Some [0x4F60, 0x597D]"
proof -
  have a: "isalpha stub_caps 0x4F60" and b: "isalpha stub_caps 0x597D"
    by (simp_all add: stub_caps_def sample_isalpha_def)
  show ?thesis
    using a b ni_hao_resolves_to_en [OF a b] by simp
qed

section \<open>Effects of a call on a pair that is not composed\<close>

lemma resolved_literal: "s \<noteq> ''auto'' \<Longrightarrow> resolved caps t s = s"
  by (simp add: resolved_def)

lemma plain_effect:
  assumes ne: "t \<noteq> []" and rs: "resolved caps t src = rs" and pl: "\<not> composed rs tgt"
    and call: "translate_text_process caps t src tgt st = (r, st')"
  shows "(\<exists>v. translation_cache st (t, rs, tgt) = Some v \<and> r = Some v
            \<and> st' = log (Cache_lookup (t, rs, tgt)) st)
       \<or> (translation_cache st (t, rs, tgt) = None \<and> fst (invoke caps rs tgt t) = None
            \<and> r = None
            \<and> st' = st\<lparr>trace := trace st @ Cache_lookup (t, rs, tgt) # snd (invoke caps rs tgt t)\<rparr>)
       \<or> (\<exists>v. translation_cache st (t, rs, tgt) = None \<and> fst (invoke caps rs tgt t) = Some v
            \<and> r = Some v
            \<and> st' = store (t, rs, tgt) v
                 (st\<lparr>trace := trace st @ Cache_lookup (t, rs, tgt) # snd (invoke caps rs tgt t)\<rparr>))"
proof (cases "translation_cache st (t, rs, tgt)")
  case (Some v)
  then show ?thesis
    using ttp_hit [of t st caps src tgt v] ne rs call by simp
next
  case None
  show ?thesis
    using ttp_miss_plain [OF ne rs pl None] call None
    by (cases "invoke caps rs tgt t") (auto split: option.splits)
qed

lemma plain_grows:
  assumes "t \<noteq> []" and "resolved caps t src = rs" and "\<not> composed rs tgt"
    and "translate_text_process caps t src tgt st = (r, st')"
  shows "translation_cache st \<subseteq>\<^sub>m translation_cache st'"
  using plain_effect [OF assms]
  by (auto simp: log_def store_def map_le_def)

lemma plain_stored:
  assumes "t \<noteq> []" and "resolved caps t src = rs" and "\<not> composed rs tgt"
    and "translate_text_process caps t src tgt st = (Some v, st')"
  shows "translation_cache st' (t, rs, tgt) = Some v"
  using plain_effect [OF assms]
  by (auto simp: log_def store_def)

lemma plain_new_entry:
  assumes "t \<noteq> []" and "resolved caps t src = rs" and "\<not> composed rs tgt"
    and "translate_text_process caps t src tgt st = (r, st')"
    and "translation_cache st' k = Some v" and "translation_cache st k = None"
  shows "k = (t, rs, tgt) \<and> r = Some v \<and> fst (invoke caps rs tgt t) = Some v"
  using plain_effect [OF assms(1-4)] assms(5,6)
  by (auto simp: log_def store_def split: if_splits)

lemma plain_value:
  assumes "t \<noteq> []" and "resolved caps t src = rs" and "\<not> composed rs tgt"
    and "translate_text_process caps t src tgt st = (r, st')"
    and "translation_cache st (t, rs, tgt) = None"
  shows "r = fst (invoke caps rs tgt t)"
  using plain_effect [OF assms(1-4)] assms(5)
  by auto

lemma plain_events:
  assumes "t \<noteq> []" and "resolved caps t src = rs" and "\<not> composed rs tgt"
    and "translate_text_process caps t src tgt st = (r, st')"
  shows "\<exists>es. trace st' = trace st @ es
           \<and> (translation_cache st (t, rs, tgt) \<noteq> None \<longrightarrow> es = [Cache_lookup (t, rs, tgt)])
           \<and> set es \<subseteq> {Cache_lookup (t, rs, tgt)} \<union> set (snd (invoke caps rs tgt t))
                \<union> {e. \<exists>v. e = Cache_store (t, rs, tgt) v}"
  using plain_effect [OF assms]
  by (auto simp: log_def store_def)


lemma composed_cases [consumes 4, case_names hit hop1_fails hop2_fails stored]:
  assumes ne: "t \<noteq> []" and rs: "resolved caps t src = rs" and co: "composed rs tgt"
    and call: "translate_text_process caps t src tgt st = (r, st')"
  obtains
    (hit) v where "translation_cache st (t, rs, tgt) = Some v" and "r = Some v"
      and "st' = log (Cache_lookup (t, rs, tgt)) st"
  | (hop1_fails) "translation_cache st (t, rs, tgt) = None" and "r = None"
      and "translate_text_process caps t rs ''zh-CN'' (log (Cache_lookup (t, rs, tgt)) st)
             = (None, st')"
  | (hop2_fails) mid st1 where "translation_cache st (t, rs, tgt) = None" and "r = None"
      and "translate_text_process caps t rs ''zh-CN'' (log (Cache_lookup (t, rs, tgt)) st)
             = (Some mid, st1)"
      and "translate_text_process caps mid ''zh-CN'' tgt st1 = (None, st')"
  | (stored) mid st1 v st2 where "translation_cache st (t, rs, tgt) = None" and "r = Some v"
      and "translate_text_process caps t rs ''zh-CN'' (log (Cache_lookup (t, rs, tgt)) st)
             = (Some mid, st1)"
      and "translate_text_process caps mid ''zh-CN'' tgt st1 = (Some v, st2)"
      and "st' = store (t, rs, tgt) v st2"
proof (cases "translation_cache st (t, rs, tgt)")
  case (Some v)
  then show ?thesis
    using ttp_hit [of t st caps src tgt v] ne rs call hit by simp
next
  case None
  have eq: "(r, st') =
     (case translate_text_process caps t rs ''zh-CN'' (log (Cache_lookup (t, rs, tgt)) st) of
        (None, st1) \<Rightarrow> (None, st1)
      | (Some mid, st1) \<Rightarrow>
          (case translate_text_process caps mid ''zh-CN'' tgt st1 of
             (None, st2) \<Rightarrow> (None, st2)
           | (Some v, st2) \<Rightarrow> (Some v, store (t, rs, tgt) v st2)))"
  proof (cases "rs = ''en''")
    case True
    with co have g: "tgt = ''zh-TW''" by (simp add: composed_def)
    show ?thesis
      using ttp_miss_en_zhTW [of t caps src st] ne rs None call
      unfolding True g by simp
  next
    case False
    with co have g: "rs = ''zh-TW''" "tgt = ''en''" by (simp_all add: composed_def)
    show ?thesis
      using ttp_miss_zhTW_en [of t caps src st] ne rs None call
      unfolding g by simp
  qed
  obtain r1 st1 where h1:
    "translate_text_process caps t rs ''zh-CN'' (log (Cache_lookup (t, rs, tgt)) st) = (r1, st1)"
    by (cases "translate_text_process caps t rs ''zh-CN'' (log (Cache_lookup (t, rs, tgt)) st)")
  show ?thesis
  proof (cases r1)
    case None
    with eq h1 have "r = None" "st' = st1" by simp_all
    with h1 None \<open>translation_cache st (t, rs, tgt) = None\<close> show ?thesis
      using hop1_fails by simp
  next
    case (Some mid)
    obtain r2 st2 where h2: "translate_text_process caps mid ''zh-CN'' tgt st1 = (r2, st2)"
      by (cases "translate_text_process caps mid ''zh-CN'' tgt st1")
    show ?thesis
    proof (cases r2)
      case None
      with eq h1 h2 Some have "r = None" "st' = st2" by simp_all
      with h1 h2 Some None \<open>translation_cache st (t, rs, tgt) = None\<close> show ?thesis
        using hop2_fails by simp
    next
      case (Some v)
      with eq h1 h2 \<open>r1 = Some mid\<close> have "r = Some v" "st' = store (t, rs, tgt) v st2"
        by simp_all
      with h1 h2 Some \<open>r1 = Some mid\<close> \<open>translation_cache st (t, rs, tgt) = None\<close>
      show ?thesis
        using stored by simp
    qed
  qed
qed


lemma map_le_SomeD: "c \<subseteq>\<^sub>m c' \<Longrightarrow> c k = Some v \<Longrightarrow> c' k = Some v"
  by (auto simp: map_le_def dom_def)

lemma expected_plain: "\<not> composed s g \<Longrightarrow> expected caps t s g = fst (invoke caps s g t)"
  by (auto simp: expected_def composed_def)

lemma expected_composed:
  assumes "composed s g"
  shows "expected caps t s g =
           Option.bind (expected caps t s ''zh-CN'') (hop (\<lambda>mid. expected caps mid ''zh-CN'' g))"
proof -
  have "hop (\<lambda>mid. fst (invoke caps ''zh-CN'' ''zh-TW'' mid)) = hop (convert_s2t caps)"
    and "hop (\<lambda>mid. fst (invoke caps ''zh-CN'' ''en'' mid)) = hop (translate_zh_en caps)"
    by (simp_all add: invoke_def fun_eq_iff hop_def)
  then show ?thesis
    using assms by (auto simp: expected_def composed_def invoke_def)
qed

lemma cache_ok_extend:
  assumes ok: "cache_ok caps c" and le: "c \<subseteq>\<^sub>m c'"
    and new: "\<And>t s g v. c' (t, s, g) = Some v \<Longrightarrow> c (t, s, g) = None \<Longrightarrow>
        t \<noteq> [] \<and> s \<noteq> ''auto'' \<and> expected caps t s g = Some v
        \<and> (s = ''en'' \<and> g = ''zh-TW'' \<longrightarrow>
             (\<exists>mid. c' (t, ''en'', ''zh-CN'') = Some mid
                \<and> (mid \<noteq> [] \<longrightarrow> c' (mid, ''zh-CN'', ''zh-TW'') = Some v)))
        \<and> (s = ''zh-TW'' \<and> g = ''en'' \<longrightarrow>
             (\<exists>mid. c' (t, ''zh-TW'', ''zh-CN'') = Some mid
                \<and> (mid \<noteq> [] \<longrightarrow> c' (mid, ''zh-CN'', ''en'') = Some v)))"
  shows "cache_ok caps c'"
  unfolding cache_ok_def
proof (intro allI impI)
  fix t s g v
  assume e: "c' (t, s, g) = Some v"
  show "t \<noteq> [] \<and> s \<noteq> ''auto'' \<and> expected caps t s g = Some v
        \<and> (s = ''en'' \<and> g = ''zh-TW'' \<longrightarrow>
             (\<exists>mid. c' (t, ''en'', ''zh-CN'') = Some mid
                \<and> (mid \<noteq> [] \<longrightarrow> c' (mid, ''zh-CN'', ''zh-TW'') = Some v)))
        \<and> (s = ''zh-TW'' \<and> g = ''en'' \<longrightarrow>
             (\<exists>mid. c' (t, ''zh-TW'', ''zh-CN'') = Some mid
                \<and> (mid \<noteq> [] \<longrightarrow> c' (mid, ''zh-CN'', ''en'') = Some v)))"
  proof (cases "c (t, s, g)")
    case None
    with e new show ?thesis by blast
  next
    case (Some w)
    with le have "c' (t, s, g) = Some w" by (rule map_le_SomeD)
    with e have w: "w = v" by simp
    from ok Some w have old: "t \<noteq> [] \<and> s \<noteq> ''auto'' \<and> expected caps t s g = Some v
        \<and> (s = ''en'' \<and> g = ''zh-TW'' \<longrightarrow>
             (\<exists>mid. c (t, ''en'', ''zh-CN'') = Some mid
                \<and> (mid \<noteq> [] \<longrightarrow> c (mid, ''zh-CN'', ''zh-TW'') = Some v)))
        \<and> (s = ''zh-TW'' \<and> g = ''en'' \<longrightarrow>
             (\<exists>mid. c (t, ''zh-TW'', ''zh-CN'') = Some mid
                \<and> (mid \<noteq> [] \<longrightarrow> c (mid, ''zh-CN'', ''en'') = Some v)))"
      unfolding cache_ok_def by blast
    then show ?thesis
      using map_le_SomeD [OF le] by blast
  qed
qed

lemma cache_ok_value:
  "cache_ok caps c \<Longrightarrow> c (t, s, g) = Some v \<Longrightarrow> expected caps t s g = Some v"
  unfolding cache_ok_def by blast

lemma plain_ok:
  assumes ne: "t \<noteq> []" and rs: "resolved caps t src = rs" and pl: "\<not> composed rs tgt"
    and call: "translate_text_process caps t src tgt st = (r, st')"
    and ok: "cache_ok caps (translation_cache st)"
  shows "cache_ok caps (translation_cache st')" and "r = expected caps t rs tgt"
proof -
  show "r = expected caps t rs tgt"
  proof (cases "translation_cache st (t, rs, tgt)")
    case None
    then show ?thesis
      using plain_value [OF ne rs pl call] expected_plain [OF pl] by simp
  next
    case (Some v)
    then have "r = Some v"
      using plain_effect [OF ne rs pl call] by auto
    with Some ok show ?thesis
      by (simp add: cache_ok_value)
  qed
  show "cache_ok caps (translation_cache st')"
  proof (rule cache_ok_extend [OF ok plain_grows [OF ne rs pl call]])
    fix t' s g v
    assume "translation_cache st' (t', s, g) = Some v" and "translation_cache st (t', s, g) = None"
    then have k: "(t', s, g) = (t, rs, tgt)" and v: "fst (invoke caps rs tgt t) = Some v"
      using plain_new_entry [OF ne rs pl call] by blast+
    have "s \<noteq> ''auto''"
      using k rs resolved_not_auto [of caps t src] by simp
    moreover have "\<not> composed s g"
      using k pl by simp
    moreover have "expected caps t' s g = Some v"
      using k v expected_plain [OF pl] by simp
    ultimately show "t' \<noteq> [] \<and> s \<noteq> ''auto'' \<and> expected caps t' s g = Some v
        \<and> (s = ''en'' \<and> g = ''zh-TW'' \<longrightarrow>
             (\<exists>mid. translation_cache st' (t', ''en'', ''zh-CN'') = Some mid
                \<and> (mid \<noteq> [] \<longrightarrow> translation_cache st' (mid, ''zh-CN'', ''zh-TW'') = Some v)))
        \<and> (s = ''zh-TW'' \<and> g = ''en'' \<longrightarrow>
             (\<exists>mid. translation_cache st' (t', ''zh-TW'', ''zh-CN'') = Some mid
                \<and> (mid \<noteq> [] \<longrightarrow> translation_cache st' (mid, ''zh-CN'', ''en'') = Some v)))"
      using k ne by (auto simp: composed_def)
  qed
qed

lemma log_cache [simp]: "translation_cache (log e st) = translation_cache st"
  by (simp add: log_def)

lemma hop1_facts:
  assumes "composed rs tgt"
  shows "resolved caps t rs = rs" and "\<not> composed rs ''zh-CN''"
    and "resolved caps mid ''zh-CN'' = ''zh-CN''" and "\<not> composed ''zh-CN'' tgt"
    and "rs \<noteq> ''zh-CN''" and "tgt \<noteq> ''zh-CN''" and "rs \<noteq> ''auto''"
  using assms by (auto simp: composed_def resolved_def)

section \<open>The hops of a composed pair\<close>

text \<open>The second hop, whose text may be empty.\<close>

lemma hop2_grows:
  assumes "translate_text_process caps mid ''zh-CN'' tgt st = (r, st')" and "\<not> composed ''zh-CN'' tgt"
  shows "translation_cache st \<subseteq>\<^sub>m translation_cache st'"
proof (cases "mid = []")
  case True
  with assms show ?thesis by (simp add: ttp_empty)
next
  case False
  show ?thesis
    by (rule plain_grows [OF False _ assms(2) assms(1)]) (simp add: resolved_def)
qed

lemma hop2_new_entry:
  assumes "translate_text_process caps mid ''zh-CN'' tgt st = (r, st')" and "\<not> composed ''zh-CN'' tgt"
    and "translation_cache st' k = Some v" and "translation_cache st k = None"
  shows "mid \<noteq> [] \<and> k = (mid, ''zh-CN'', tgt)"
proof (cases "mid = []")
  case True
  with assms show ?thesis by (simp add: ttp_empty)
next
  case False
  have "resolved caps mid ''zh-CN'' = ''zh-CN''" by (simp add: resolved_def)
  from plain_new_entry [OF False this assms(2) assms(1) assms(3,4)] False
  show ?thesis by simp
qed

lemma hop2_ok:
  assumes "translate_text_process caps mid ''zh-CN'' tgt st = (r, st')" and "\<not> composed ''zh-CN'' tgt"
    and "cache_ok caps (translation_cache st)"
  shows "cache_ok caps (translation_cache st')"
    and "r = hop (\<lambda>m. expected caps m ''zh-CN'' tgt) mid"
proof -
  have rs: "resolved caps mid ''zh-CN'' = ''zh-CN''" by (simp add: resolved_def)
  show "cache_ok caps (translation_cache st')"
  proof (cases "mid = []")
    case True
    with assms show ?thesis by (simp add: ttp_empty)
  next
    case False
    from plain_ok(1) [OF False rs assms(2) assms(1) assms(3)] show ?thesis .
  qed
  show "r = hop (\<lambda>m. expected caps m ''zh-CN'' tgt) mid"
  proof (cases "mid = []")
    case True
    with assms show ?thesis by (simp add: ttp_empty hop_def)
  next
    case False
    from plain_ok(2) [OF False rs assms(2) assms(1) assms(3)] False show ?thesis
      by (simp add: hop_def)
  qed
qed

lemma hop2_stored:
  assumes "translate_text_process caps mid ''zh-CN'' tgt st = (Some v, st')"
    and "\<not> composed ''zh-CN'' tgt" and "mid \<noteq> []"
  shows "translation_cache st' (mid, ''zh-CN'', tgt) = Some v"
  by (rule plain_stored [OF assms(3) _ assms(2) assms(1)]) (simp add: resolved_def)

text \<open>A composed call that reaches line 167 stores under a key that is still absent.\<close>

lemma composed_key_fresh:
  assumes co: "composed rs tgt"
    and none: "translation_cache st (t, rs, tgt) = None"
    and h1: "translate_text_process caps t rs ''zh-CN'' (log (Cache_lookup (t, rs, tgt)) st)
               = (r1, st1)"
    and h2: "translate_text_process caps mid ''zh-CN'' tgt st1 = (r2, st2)"
    and ne: "t \<noteq> []"
  shows "translation_cache st2 (t, rs, tgt) = None"
proof (rule ccontr)
  assume "translation_cache st2 (t, rs, tgt) \<noteq> None"
  then obtain v where v: "translation_cache st2 (t, rs, tgt) = Some v" by auto
  note f = hop1_facts [OF co]
  have "translation_cache st1 (t, rs, tgt) = None"
  proof (rule ccontr)
    assume "translation_cache st1 (t, rs, tgt) \<noteq> None"
    then obtain w where w: "translation_cache st1 (t, rs, tgt) = Some w" by auto
    have "translation_cache (log (Cache_lookup (t, rs, tgt)) st) (t, rs, tgt) = None"
      using none by simp
    from plain_new_entry [OF ne f(1) f(2) h1 w this] f(6) show False by simp
  qed
  from hop2_new_entry [OF h2 f(4) v this] f(5) show False by simp
qed


section \<open>Effects of any call\<close>

lemma call_grows:
  assumes call: "translate_text_process caps t src tgt st = (r, st')"
  shows "translation_cache st \<subseteq>\<^sub>m translation_cache st'"
proof (cases "t = []")
  case True
  with call show ?thesis by (simp add: ttp_empty)
next
  case ne: False
  define rs where "rs = resolved caps t src"
  then have rs: "resolved caps t src = rs" by simp
  show ?thesis
  proof (cases "composed rs tgt")
    case False
    from plain_grows [OF ne rs False call] show ?thesis .
  next
    case co: True
    note f = hop1_facts [OF co]
    from ne rs co call show ?thesis
    proof (cases rule: composed_cases)
      case (hit v)
      then show ?thesis by simp
    next
      case hop1_fails
      from plain_grows [OF ne f(1) f(2) hop1_fails(3)] show ?thesis by simp
    next
      case (hop2_fails mid st1)
      from plain_grows [OF ne f(1) f(2) hop2_fails(3)] hop2_grows [OF hop2_fails(4) f(4)]
      show ?thesis by (auto intro: map_le_trans)
    next
      case (stored mid st1 v st2)
      have a: "translation_cache st \<subseteq>\<^sub>m translation_cache st2"
        using plain_grows [OF ne f(1) f(2) stored(3)] hop2_grows [OF stored(4) f(4)]
        by (auto intro: map_le_trans)
      have "translation_cache st2 (t, rs, tgt) = None"
        by (rule composed_key_fresh [OF co stored(1) stored(3) stored(4) ne])
      then have "translation_cache st2 \<subseteq>\<^sub>m translation_cache st'"
        by (auto simp: stored(5) store_def map_le_def)
      with a show ?thesis by (rule map_le_trans)
    qed
  qed
qed

lemma call_stored:
  assumes ne: "t \<noteq> []" and call: "translate_text_process caps t src tgt st = (Some v, st')"
  shows "translation_cache st' (t, resolved caps t src, tgt) = Some v"
proof -
  define rs where "rs = resolved caps t src"
  then have rs: "resolved caps t src = rs" by simp
  have "translation_cache st' (t, rs, tgt) = Some v"
  proof (cases "composed rs tgt")
    case False
    from plain_stored [OF ne rs False call] show ?thesis .
  next
    case co: True
    from ne rs co call show ?thesis
      by (cases rule: composed_cases) (simp_all add: store_def)
  qed
  then show ?thesis by (simp add: rs)
qed

lemma call_ok:
  assumes call: "translate_text_process caps t src tgt st = (r, st')"
    and ok: "cache_ok caps (translation_cache st)"
  shows "cache_ok caps (translation_cache st')"
    and "t \<noteq> [] \<Longrightarrow> r = expected caps t (resolved caps t src) tgt"
proof -
  define rs where "rs = resolved caps t src"
  then have rs: "resolved caps t src = rs" by simp
  have "cache_ok caps (translation_cache st') \<and> (t \<noteq> [] \<longrightarrow> r = expected caps t rs tgt)"
  proof (cases "t = []")
    case True
    with call ok show ?thesis by (simp add: ttp_empty)
  next
    case ne: False
    show ?thesis
    proof (cases "composed rs tgt")
      case False
      from plain_ok [OF ne rs False call ok] show ?thesis by simp
    next
      case co: True
      note f = hop1_facts [OF co]
      have ok0: "cache_ok caps (translation_cache (log (Cache_lookup (t, rs, tgt)) st))"
        using ok by simp
      from ne rs co call show ?thesis
      proof (cases rule: composed_cases)
        case (hit v)
        with ok show ?thesis by (simp add: cache_ok_value)
      next
        case hop1_fails
        from plain_ok [OF ne f(1) f(2) hop1_fails(3) ok0] hop1_fails(2)
        show ?thesis by (simp add: expected_composed [OF co])
      next
        case (hop2_fails mid st1)
        note p = plain_ok [OF ne f(1) f(2) hop2_fails(3) ok0]
        note q = hop2_ok [OF hop2_fails(4) f(4) p(1)]
        from p(2) q hop2_fails(2) show ?thesis
          by (simp add: expected_composed [OF co, of caps t])
            (metis bind.bind_lunit)
      next
        case (stored mid st1 v st2)
        note p = plain_ok [OF ne f(1) f(2) stored(3) ok0]
        note q = hop2_ok [OF stored(4) f(4) p(1)]
        have val: "expected caps t rs tgt = Some v"
          using p(2) q(2) stored(2)
          by (simp add: expected_composed [OF co, of caps t])
            (metis bind.bind_lunit)
        have fresh: "translation_cache st2 (t, rs, tgt) = None"
          by (rule composed_key_fresh [OF co stored(1) stored(3) stored(4) ne])
        have e1: "translation_cache st2 (t, rs, ''zh-CN'') = Some mid"
          using plain_stored [OF ne f(1) f(2) stored(3)] hop2_grows [OF stored(4) f(4)]
          by (rule_tac map_le_SomeD)
        have e2: "mid \<noteq> [] \<Longrightarrow> translation_cache st2 (mid, ''zh-CN'', tgt) = Some v"
          by (rule hop2_stored [OF stored(4) f(4)])
        have c': "translation_cache st' = (translation_cache st2)((t, rs, tgt) \<mapsto> v)"
          by (simp add: stored(5) store_def)
        have le: "translation_cache st2 \<subseteq>\<^sub>m translation_cache st'"
          using fresh by (auto simp: c' map_le_def)
        have "cache_ok caps (translation_cache st')"
        proof (rule cache_ok_extend [OF q(1) le])
          fix t' s g w
          assume n: "translation_cache st' (t', s, g) = Some w"
            and o: "translation_cache st2 (t', s, g) = None"
          then have k: "t' = t" "s = rs" "g = tgt" "w = v"
            by (auto simp: c' split: if_splits)
          have m1: "translation_cache st' (t, rs, ''zh-CN'') = Some mid"
            using e1 le by (rule_tac map_le_SomeD)
          have m2: "mid \<noteq> [] \<Longrightarrow> translation_cache st' (mid, ''zh-CN'', tgt) = Some v"
            using e2 le by (rule_tac map_le_SomeD)
          show "t' \<noteq> [] \<and> s \<noteq> ''auto'' \<and> expected caps t' s g = Some w
            \<and> (s = ''en'' \<and> g = ''zh-TW'' \<longrightarrow>
                 (\<exists>mid. translation_cache st' (t', ''en'', ''zh-CN'') = Some mid
                    \<and> (mid \<noteq> [] \<longrightarrow> translation_cache st' (mid, ''zh-CN'', ''zh-TW'') = Some w)))
            \<and> (s = ''zh-TW'' \<and> g = ''en'' \<longrightarrow>
                 (\<exists>mid. translation_cache st' (t', ''zh-TW'', ''zh-CN'') = Some mid
                    \<and> (mid \<noteq> [] \<longrightarrow> translation_cache st' (mid, ''zh-CN'', ''en'') = Some w)))"
            using k ne f(7) val m1 m2 by auto
        qed
        with val stored(2) show ?thesis by simp
      qed
    qed
  qed
  then show "cache_ok caps (translation_cache st')"
    and "t \<noteq> [] \<Longrightarrow> r = expected caps t (resolved caps t src) tgt"
    by (simp_all add: rs)
qed

lemma cache_ok_empty: "cache_ok caps Map.empty"
  by (simp add: cache_ok_def)

lemma reachable_cache_ok: "reachable caps st \<Longrightarrow> cache_ok caps (translation_cache st)"
proof (induction rule: reachable.induct)
  case reachable_init
  show ?case by (simp add: initial_state_def cache_ok_empty)
next
  case (reachable_call st t src tgt r st')
  from call_ok(1) [OF reachable_call(2) reachable_call(3)] show ?case .
qed

section \<open>The cache across calls\<close>

text \<open>The equations that evaluate a call on concrete arguments.\<close>

lemmas run = translate_text_process.simps Let_def log_def store_def initial_state_def

lemma events_since_append: "trace st' = trace st @ es \<Longrightarrow> events_since st st' = es"
  by (simp add: events_since_def)

lemma not_routed_same: "\<not> routed (resolved caps t L) L"
proof (cases "L = ''auto''")
  case True
  then show ?thesis
    by (simp add: routed_def direct_def composed_def resolved_def)
next
  case False
  then show ?thesis
    by (auto simp: routed_def direct_def composed_def resolved_def)
qed

text \<open>
  Claim C8. A call never changes the value under a key that is already in the cache:
  the cache after the call extends the cache before it.
\<close>

theorem existing_entries_kept:
  assumes "translate_text_process caps t src tgt st = (r, st')"
  shows "translation_cache st \<subseteq>\<^sub>m translation_cache st'
     \<and> (translation_cache st k = Some v \<longrightarrow> translation_cache st' k = Some v)"
proof -
  have "translation_cache st \<subseteq>\<^sub>m translation_cache st'"
    using assms by (rule call_grows)
  then show ?thesis
    by (auto dest: map_le_SomeD)
qed

theorem existing_entries_kept_witness:
  "translation_cache (snd (translate_text_process stub_caps [0x68, 0x69] ''en'' ''zh-CN'' initial_state))
      ([0x68, 0x69], ''en'', ''zh-CN'') = Some [0x4F53, 0x80B2]
   \<and> translation_cache
        (snd (translate_text_process stub_caps [0x68, 0x69] ''en'' ''zh-TW''
           (snd (translate_text_process stub_caps [0x68, 0x69] ''en'' ''zh-CN'' initial_state))))
      ([0x68, 0x69], ''en'', ''zh-CN'') = Some [0x4F53, 0x80B2]"
proof -
  let ?st = "snd (translate_text_process stub_caps [0x68, 0x69] ''en'' ''zh-CN'' initial_state)"
  let ?k = "([0x68, 0x69], ''en'', ''zh-CN'') :: key"
  have a: "translation_cache ?st ?k = Some [0x4F53, 0x80B2]"
    by (simp add: run stub_caps_def)
  have c: "translate_text_process stub_caps [0x68, 0x69] ''en'' ''zh-TW'' ?st
             = (fst (translate_text_process stub_caps [0x68, 0x69] ''en'' ''zh-TW'' ?st),
                snd (translate_text_process stub_caps [0x68, 0x69] ''en'' ''zh-TW'' ?st))"
    by simp
  show ?thesis
    using a existing_entries_kept [OF c, of ?k "[0x4F53, 0x80B2]"] by blast
qed

text \<open>
  Claim C6. When a call has returned a string, the cache holds that string under the
  resolved key of the call, and the same call made again returns it from there: the
  answer is the same whatever the models and converters would now do (they may all
  fail), the cache is left as it is, and the trace gains the lookup of the key only
  (nothing at all for the empty text), so no model and no converter is invoked.
\<close>

theorem second_call_from_cache:
  assumes "translate_text_process caps t src tgt st = (Some v, st1)"
    and "isalpha caps' = isalpha caps"
  shows "translate_text_process caps t src tgt st1
           = (Some v, if t = [] then st1 else log (Cache_lookup (t, resolved caps t src, tgt)) st1)
     \<and> translation_cache (snd (translate_text_process caps t src tgt st1)) = translation_cache st1
     \<and> filter is_invocation (events_since st1 (snd (translate_text_process caps t src tgt st1))) = []
     \<and> (t \<noteq> [] \<longrightarrow> translation_cache st1 (t, resolved caps t src, tgt) = Some v)
     \<and> translate_text_process caps' t src tgt st1
           = (Some v, if t = [] then st1 else log (Cache_lookup (t, resolved caps t src, tgt)) st1)
     \<and> events_since st1 (snd (translate_text_process caps' t src tgt st1))
           = (if t = [] then [] else [Cache_lookup (t, resolved caps t src, tgt)])"
proof (cases "t = []")
  case True
  with assms show ?thesis
    by (simp add: ttp_empty events_since_def)
next
  case False
  have k: "translation_cache st1 (t, resolved caps t src, tgt) = Some v"
    using False assms(1) by (rule call_stored)
  have r: "resolved caps' t src = resolved caps t src"
    using assms(2) by (simp add: resolved_def)
  have k': "translation_cache st1 (t, resolved caps' t src, tgt) = Some v"
    using k r by simp
  from ttp_hit [OF False k] ttp_hit [OF False k'] r k False show ?thesis
    by (simp add: events_since_def log_def)
qed

theorem second_call_from_cache_witness:
  "translate_text_process stub_caps [0x68, 0x69] ''en'' ''zh-TW'' initial_state
     = (Some [0x9AD4, 0x80B2],
        snd (translate_text_process stub_caps [0x68, 0x69] ''en'' ''zh-TW'' initial_state))
   \<and> isalpha failing_caps = isalpha stub_caps
   \<and> fst (translate_text_process stub_caps [0x68, 0x69] ''en'' ''zh-TW''
        (snd (translate_text_process stub_caps [0x68, 0x69] ''en'' ''zh-TW'' initial_state)))
     = Some [0x9AD4, 0x80B2]
   \<and> filter is_invocation
        (events_since
           (snd (translate_text_process stub_caps [0x68, 0x69] ''en'' ''zh-TW'' initial_state))
           (snd (translate_text_process stub_caps [0x68, 0x69] ''en'' ''zh-TW''
              (snd (translate_text_process stub_caps [0x68, 0x69] ''en'' ''zh-TW'' initial_state)))))
     = []
   \<and> translation_cache
        (snd (translate_text_process stub_caps [0x68, 0x69] ''en'' ''zh-TW'' initial_state))
        ([0x68, 0x69], ''en'', ''zh-TW'') = Some [0x9AD4, 0x80B2]
   \<and> fst (translate_text_process failing_caps [0x68, 0x69] ''en'' ''zh-TW''
        (snd (translate_text_process stub_caps [0x68, 0x69] ''en'' ''zh-TW'' initial_state)))
     = Some [0x9AD4, 0x80B2]
   \<and> fst (translate_text_process failing_caps [0x68, 0x69] ''en'' ''zh-TW'' initial_state) = None"
proof -
  let ?st1 = "snd (translate_text_process stub_caps [0x68, 0x69] ''en'' ''zh-TW'' initial_state)"
  have "fst (translate_text_process stub_caps [0x68, 0x69] ''en'' ''zh-TW'' initial_state)
          = Some [0x9AD4, 0x80B2]"
    by (simp add: run stub_caps_def)
  then have c: "translate_text_process stub_caps [0x68, 0x69] ''en'' ''zh-TW'' initial_state
          = (Some [0x9AD4, 0x80B2], ?st1)"
    by (metis prod.collapse)
  have i: "isalpha failing_caps = isalpha stub_caps"
    by (simp add: failing_caps_def stub_caps_def)
  have ne: "[0x68, 0x69] \<noteq> ([] :: pystr)"
    by simp
  have rs: "resolved stub_caps [0x68, 0x69] ''en'' = ''en''"
    by (simp add: resolved_def)
  note s = second_call_from_cache [OF c i]
  have a: "fst (translate_text_process stub_caps [0x68, 0x69] ''en'' ''zh-TW'' ?st1)
             = Some [0x9AD4, 0x80B2]"
    by (simp only: s [THEN conjunct1] fst_conv)
  have b: "translation_cache ?st1 ([0x68, 0x69], ''en'', ''zh-TW'') = Some [0x9AD4, 0x80B2]"
    using s [THEN conjunct2, THEN conjunct2, THEN conjunct2, THEN conjunct1] ne rs
    by (simp only: simp_thms)
  have d: "fst (translate_text_process failing_caps [0x68, 0x69] ''en'' ''zh-TW'' ?st1)
             = Some [0x9AD4, 0x80B2]"
    by (simp only: s [THEN conjunct2, THEN conjunct2, THEN conjunct2, THEN conjunct2,
          THEN conjunct1] fst_conv)
  have e: "fst (translate_text_process failing_caps [0x68, 0x69] ''en'' ''zh-TW'' initial_state)
             = None"
    by (simp add: run failing_caps_def)
  show ?thesis
    using c i a s [THEN conjunct2, THEN conjunct2, THEN conjunct1] b d e by (intro conjI)
qed

lemma cache_ok_key:
  "cache_ok caps c \<Longrightarrow> c (t, s, g) = Some v \<Longrightarrow> t \<noteq> [] \<and> s \<noteq> ''auto''"
  unfolding cache_ok_def by blast

lemma expected_unrouted: "\<not> routed s g \<Longrightarrow> expected caps t s g = Some t"
  by (auto simp: routed_def direct_def composed_def expected_def invoke_def)

text \<open>
  Claim C5. In every reachable state, a nonempty text under a pair that is none of the
  six routed pairs comes back verbatim, without failure, and the cache then holds the text
  under the key of the resolved pair. This covers equal source and target, for every tag, and tags outside the table.
\<close>

theorem unrouted_pair_passthrough:
  assumes "reachable caps st" and "t \<noteq> []" and "\<not> routed (resolved caps t src) tgt"
  shows "fst (translate_text_process caps t src tgt st) = Some t
     \<and> translation_cache (snd (translate_text_process caps t src tgt st))
          (t, resolved caps t src, tgt) = Some t
     \<and> fst (translate_text_process caps t L L st) = Some t
     \<and> translation_cache (snd (translate_text_process caps t L L st))
          (t, resolved caps t L, L) = Some t"
proof -
  have ok: "cache_ok caps (translation_cache st)"
    using assms(1) by (rule reachable_cache_ok)
  have pass: "fst (translate_text_process caps t s g st) = Some t
     \<and> translation_cache (snd (translate_text_process caps t s g st)) (t, resolved caps t s, g)
         = Some t"
    if n: "\<not> routed (resolved caps t s) g" for s g
  proof -
    obtain r st' where c: "translate_text_process caps t s g st = (r, st')"
      by (cases "translate_text_process caps t s g st")
    have "r = Some t"
      using call_ok(2) [OF c ok assms(2)] expected_unrouted [OF n] by simp
    with c call_stored [OF assms(2), of caps s g st t st'] show ?thesis
      by simp
  qed
  show ?thesis
    using pass [OF assms(3)] pass [OF not_routed_same] by simp
qed

theorem unrouted_pair_passthrough_witness:
  "reachable stub_caps initial_state
   \<and> \<not> routed (resolved stub_caps [0x61, 0x62, 0x63] ''fr'') ''de''
   \<and> fst (translate_text_process stub_caps [0x61, 0x62, 0x63] ''fr'' ''de'' initial_state)
       = Some [0x61, 0x62, 0x63]
   \<and> translation_cache
        (snd (translate_text_process stub_caps [0x61, 0x62, 0x63] ''fr'' ''de'' initial_state))
        ([0x61, 0x62, 0x63], ''fr'', ''de'') = Some [0x61, 0x62, 0x63]
   \<and> fst (translate_text_process stub_caps [0x61, 0x62, 0x63] ''zh-TW'' ''zh-TW'' initial_state)
       = Some [0x61, 0x62, 0x63]"
proof -
  have a: "reachable stub_caps initial_state"
    by (rule reachable_init)
  have b: "[0x61, 0x62, 0x63] \<noteq> ([] :: pystr)"
    by simp
  have r: "resolved stub_caps [0x61, 0x62, 0x63] ''fr'' = ''fr''"
    and r2: "resolved stub_caps [0x61, 0x62, 0x63] ''zh-TW'' = ''zh-TW''"
    by (simp_all add: resolved_def)
  have c: "\<not> routed (resolved stub_caps [0x61, 0x62, 0x63] ''fr'') ''de''"
    by (simp add: r routed_def direct_def composed_def)
  show ?thesis
    using a c unrouted_pair_passthrough [OF a b c, of "''zh-TW''"] r by simp
qed

text \<open>
  Claim C7, amended. In every reachable state no key of the cache has \<open>auto\<close> as its
  source component; a call with source \<open>auto\<close> is the call with the tag that
  \<open>detect_lang\<close> answers, in its result and in every lookup and store, and that tag is
  not \<open>auto\<close>. The target component is stored as the caller gave it.
\<close>

theorem source_of_key_never_auto:
  assumes "reachable caps st" and "translation_cache st (t, s, g) = Some v"
  shows "s \<noteq> ''auto''
     \<and> translate_text_process caps t' ''auto'' tgt st
         = translate_text_process caps t' (detect_lang (isalpha caps) t') tgt st
     \<and> detect_lang (isalpha caps) t' \<noteq> ''auto''"
proof -
  have "cache_ok caps (translation_cache st)"
    using assms(1) by (rule reachable_cache_ok)
  then have "s \<noteq> ''auto''"
    using assms(2) cache_ok_key by blast
  moreover have "translate_text_process caps t' ''auto'' tgt st
         = translate_text_process caps t' (detect_lang (isalpha caps) t') tgt st"
    using ttp_resolved [of caps t' "''auto''" tgt st] by (simp add: resolved_def)
  ultimately show ?thesis
    by (simp add: detect_lang_not_auto)
qed

lemma reachable_after:
  "reachable caps st \<Longrightarrow> reachable caps (snd (translate_text_process caps t src tgt st))"
  using reachable_call [of caps st t src tgt "fst (translate_text_process caps t src tgt st)"
      "snd (translate_text_process caps t src tgt st)"]
  by simp

theorem target_auto_is_stored:
  "reachable stub_caps (snd (translate_text_process stub_caps [0x68, 0x69] ''en'' ''auto'' initial_state))
   \<and> translation_cache
        (snd (translate_text_process stub_caps [0x68, 0x69] ''en'' ''auto'' initial_state))
        ([0x68, 0x69], ''en'', ''auto'') = Some [0x68, 0x69]"
proof -
  have "reachable stub_caps
          (snd (translate_text_process stub_caps [0x68, 0x69] ''en'' ''auto'' initial_state))"
    by (rule reachable_after [OF reachable_init])
  moreover have "translation_cache
        (snd (translate_text_process stub_caps [0x68, 0x69] ''en'' ''auto'' initial_state))
        ([0x68, 0x69], ''en'', ''auto'') = Some [0x68, 0x69]"
    by (simp add: run stub_caps_def)
  ultimately show ?thesis by simp
qed

theorem source_of_key_never_auto_witness:
  "reachable stub_caps
     (snd (translate_text_process stub_caps [0x68, 0x69] ''auto'' ''zh-CN'' initial_state))
   \<and> translation_cache
        (snd (translate_text_process stub_caps [0x68, 0x69] ''auto'' ''zh-CN'' initial_state))
        ([0x68, 0x69], ''en'', ''zh-CN'') = Some [0x4F53, 0x80B2]
   \<and> ''en'' \<noteq> ''auto''
   \<and> translation_cache
        (snd (translate_text_process stub_caps [0x68, 0x69] ''auto'' ''zh-CN'' initial_state))
        ([0x68, 0x69], ''auto'', ''zh-CN'') = None
   \<and> detect_lang (isalpha stub_caps) [0x68, 0x69] \<noteq> ''auto''"
proof -
  let ?st = "snd (translate_text_process stub_caps [0x68, 0x69] ''auto'' ''zh-CN'' initial_state)"
  have a: "reachable stub_caps ?st"
    by (rule reachable_after [OF reachable_init])
  have b: "translation_cache ?st ([0x68, 0x69], ''en'', ''zh-CN'') = Some [0x4F53, 0x80B2]"
    by (simp add: run stub_caps_def detect_lang_def sample_isalpha_def)
  have c: "translation_cache ?st ([0x68, 0x69], ''auto'', ''zh-CN'') = None"
    by (simp add: run stub_caps_def detect_lang_def sample_isalpha_def)
  show ?thesis
    using a b c source_of_key_never_auto [OF a b, of "[0x68, 0x69]"] by blast
qed

text \<open>
  Claim C10. In every reachable state each key of the cache has a nonempty text; the
  value under such a key can be the empty string, as with a model that produces no output.
\<close>

theorem keys_have_nonempty_text:
  assumes "reachable caps st" and "translation_cache st (t, s, g) = Some v"
  shows "t \<noteq> []
     \<and> translation_cache st ([], s', g') = None
     \<and> (\<exists>caps0 st0 t0 s0 g0. reachable caps0 st0 \<and> t0 \<noteq> []
            \<and> translation_cache st0 (t0, s0, g0) = Some [])"
proof -
  have ok: "cache_ok caps (translation_cache st)"
    using assms(1) by (rule reachable_cache_ok)
  then have a: "t \<noteq> []"
    using assms(2) cache_ok_key by blast
  have b: "translation_cache st ([], s', g') = None"
  proof (cases "translation_cache st ([], s', g')")
    case None
    then show ?thesis .
  next
    case (Some w)
    with ok cache_ok_key show ?thesis by blast
  qed
  let ?st0 = "snd (translate_text_process silent_caps [0x20] ''en'' ''zh-CN'' initial_state)"
  have "reachable silent_caps ?st0"
    by (rule reachable_after [OF reachable_init])
  moreover have "translation_cache ?st0 ([0x20], ''en'', ''zh-CN'') = Some []"
    by (simp add: run silent_caps_def)
  moreover have "[0x20] \<noteq> ([] :: pystr)"
    by simp
  ultimately have "\<exists>caps0 st0 t0 s0 g0. reachable caps0 st0 \<and> t0 \<noteq> []
            \<and> translation_cache st0 (t0, s0, g0) = Some []"
    by blast
  with a b show ?thesis by simp
qed

theorem keys_have_nonempty_text_witness:
  "reachable silent_caps
     (snd (translate_text_process silent_caps [0x20] ''en'' ''zh-TW'' initial_state))
   \<and> translation_cache
        (snd (translate_text_process silent_caps [0x20] ''en'' ''zh-TW'' initial_state))
        ([0x20], ''en'', ''zh-TW'') = Some []
   \<and> [0x20] \<noteq> ([] :: pystr)
   \<and> translation_cache
        (snd (translate_text_process silent_caps [0x20] ''en'' ''zh-TW'' initial_state))
        ([], ''zh-CN'', ''zh-TW'') = None"
proof -
  let ?st = "snd (translate_text_process silent_caps [0x20] ''en'' ''zh-TW'' initial_state)"
  have a: "reachable silent_caps ?st"
    by (rule reachable_after [OF reachable_init])
  have b: "translation_cache ?st ([0x20], ''en'', ''zh-TW'') = Some []"
    by (simp add: run silent_caps_def)
  show ?thesis
    using a b keys_have_nonempty_text [OF a b, of "''zh-CN''" "''zh-TW''"] by blast
qed

section \<open>Composed pairs\<close>

lemma invoke_events: "filter is_invocation (snd (invoke caps s g t)) = snd (invoke caps s g t)"
  by (simp add: invoke_def)

lemma plain_invocations:
  assumes "t \<noteq> []" and "resolved caps t src = rs" and "\<not> composed rs tgt"
    and "translate_text_process caps t src tgt st = (r, st')"
  shows "\<exists>es. trace st' = trace st @ es
           \<and> filter is_invocation es =
               (if translation_cache st (t, rs, tgt) = None then snd (invoke caps rs tgt t) else [])"
  using plain_effect [OF assms]
  by (auto simp: log_def store_def invoke_events)

lemma hop2_invocations:
  assumes "translate_text_process caps mid ''zh-CN'' tgt st = (r, st')"
    and "\<not> composed ''zh-CN'' tgt"
  shows "\<exists>es. trace st' = trace st @ es
           \<and> filter is_invocation es =
               (if mid = [] \<or> translation_cache st (mid, ''zh-CN'', tgt) \<noteq> None then []
                else snd (invoke caps ''zh-CN'' tgt mid))"
proof (cases "mid = []")
  case True
  with assms show ?thesis by (simp add: ttp_empty)
next
  case False
  have "resolved caps mid ''zh-CN'' = ''zh-CN''" by (simp add: resolved_def)
  from plain_invocations [OF False this assms(2) assms(1)] False show ?thesis
    by auto
qed

text \<open>The first hop leaves the entries of the second hop's pair as they were.\<close>

lemma hop1_keeps_hop2_key:
  assumes co: "composed rs tgt" and ne: "t \<noteq> []"
    and h1: "translate_text_process caps t rs ''zh-CN'' st = (r1, st1)"
  shows "translation_cache st1 (mid, ''zh-CN'', tgt) = translation_cache st (mid, ''zh-CN'', tgt)"
proof (cases "translation_cache st (mid, ''zh-CN'', tgt)")
  case (Some v)
  note f = hop1_facts [OF co]
  from plain_grows [OF ne f(1) f(2) h1] Some show ?thesis
    by (simp add: map_le_SomeD)
next
  case None
  note f = hop1_facts [OF co]
  show ?thesis
  proof (cases "translation_cache st1 (mid, ''zh-CN'', tgt)")
    case None
    with \<open>translation_cache st (mid, ''zh-CN'', tgt) = None\<close> show ?thesis by simp
  next
    case (Some v)
    from plain_new_entry [OF ne f(1) f(2) h1 Some \<open>translation_cache st (mid, ''zh-CN'', tgt) = None\<close>]
      f(5) show ?thesis by simp
  qed
qed

lemma composed_invocations:
  assumes ne: "t \<noteq> []" and rs: "resolved caps t src = rs" and co: "composed rs tgt"
    and call: "translate_text_process caps t src tgt st = (r, st')"
    and ok: "cache_ok caps (translation_cache st)"
  shows "\<exists>es. trace st' = trace st @ es
           \<and> filter is_invocation es =
               (if translation_cache st (t, rs, tgt) \<noteq> None then []
                else (if translation_cache st (t, rs, ''zh-CN'') = None
                      then snd (invoke caps rs ''zh-CN'' t) else [])
                   @ (case expected caps t rs ''zh-CN'' of
                        None \<Rightarrow> []
                      | Some mid \<Rightarrow>
                          if mid = [] \<or> translation_cache st (mid, ''zh-CN'', tgt) \<noteq> None then []
                          else snd (invoke caps ''zh-CN'' tgt mid)))"
proof -
  note f = hop1_facts [OF co]
  let ?st0 = "log (Cache_lookup (t, rs, tgt)) st"
  have ok0: "cache_ok caps (translation_cache ?st0)"
    using ok by simp
  have t0: "trace ?st0 = trace st @ [Cache_lookup (t, rs, tgt)]"
    by (simp add: log_def)
  from ne rs co call show ?thesis
  proof (cases rule: composed_cases)
    case (hit v)
    then show ?thesis by (simp add: log_def)
  next
    case hop1_fails
    from plain_invocations [OF ne f(1) f(2) hop1_fails(3)]
    obtain es1 where e1: "trace st' = trace ?st0 @ es1"
      "filter is_invocation es1 =
         (if translation_cache st (t, rs, ''zh-CN'') = None
          then snd (invoke caps rs ''zh-CN'' t) else [])"
      by auto
    have "expected caps t rs ''zh-CN'' = None"
      using plain_ok(2) [OF ne f(1) f(2) hop1_fails(3) ok0] by simp
    with e1 t0 hop1_fails(1) show ?thesis
      by simp
  next
    case (hop2_fails mid st1)
    from plain_invocations [OF ne f(1) f(2) hop2_fails(3)]
    obtain es1 where e1: "trace st1 = trace ?st0 @ es1"
      "filter is_invocation es1 =
         (if translation_cache st (t, rs, ''zh-CN'') = None
          then snd (invoke caps rs ''zh-CN'' t) else [])"
      by auto
    from hop2_invocations [OF hop2_fails(4) f(4)]
    obtain es2 where e2: "trace st' = trace st1 @ es2"
      "filter is_invocation es2 =
         (if mid = [] \<or> translation_cache st1 (mid, ''zh-CN'', tgt) \<noteq> None then []
          else snd (invoke caps ''zh-CN'' tgt mid))"
      by auto
    have k: "translation_cache st1 (mid, ''zh-CN'', tgt) = translation_cache st (mid, ''zh-CN'', tgt)"
      using hop1_keeps_hop2_key [OF co ne hop2_fails(3)] by simp
    have "expected caps t rs ''zh-CN'' = Some mid"
      using plain_ok(2) [OF ne f(1) f(2) hop2_fails(3) ok0] by simp
    with e1 e2 t0 k hop2_fails(1) show ?thesis
      by simp
  next
    case (stored mid st1 v st2)
    from plain_invocations [OF ne f(1) f(2) stored(3)]
    obtain es1 where e1: "trace st1 = trace ?st0 @ es1"
      "filter is_invocation es1 =
         (if translation_cache st (t, rs, ''zh-CN'') = None
          then snd (invoke caps rs ''zh-CN'' t) else [])"
      by auto
    from hop2_invocations [OF stored(4) f(4)]
    obtain es2 where e2: "trace st2 = trace st1 @ es2"
      "filter is_invocation es2 =
         (if mid = [] \<or> translation_cache st1 (mid, ''zh-CN'', tgt) \<noteq> None then []
          else snd (invoke caps ''zh-CN'' tgt mid))"
      by auto
    have k: "translation_cache st1 (mid, ''zh-CN'', tgt) = translation_cache st (mid, ''zh-CN'', tgt)"
      using hop1_keeps_hop2_key [OF co ne stored(3)] by simp
    have x: "expected caps t rs ''zh-CN'' = Some mid"
      using plain_ok(2) [OF ne f(1) f(2) stored(3) ok0] by simp
    have "trace st' = trace st2 @ [Cache_store (t, rs, tgt) v]"
      by (simp add: stored(5) store_def)
    with e1 e2 t0 k x stored(1) show ?thesis
      by simp
  qed
qed

lemma composed_entries:
  assumes ne: "t \<noteq> []" and rs: "resolved caps t src = rs" and co: "composed rs tgt"
    and call: "translate_text_process caps t src tgt st = (Some v, st')"
    and ok: "cache_ok caps (translation_cache st)"
  shows "\<exists>mid. expected caps t rs ''zh-CN'' = Some mid
           \<and> translation_cache st' (t, rs, ''zh-CN'') = Some mid
           \<and> (mid \<noteq> [] \<longrightarrow> translation_cache st' (mid, ''zh-CN'', tgt) = Some v)
           \<and> (mid = [] \<longrightarrow> v = [])
           \<and> translation_cache st' (t, rs, tgt) = Some v"
proof -
  have ok': "cache_ok caps (translation_cache st')"
    using call ok by (rule call_ok(1))
  have top: "translation_cache st' (t, rs, tgt) = Some v"
    using call_stored [OF ne call] rs by simp
  have val: "expected caps t rs tgt = Some v"
    using ok' top by (rule cache_ok_value)
  have "\<exists>mid. translation_cache st' (t, rs, ''zh-CN'') = Some mid
           \<and> (mid \<noteq> [] \<longrightarrow> translation_cache st' (mid, ''zh-CN'', tgt) = Some v)"
    using ok' top co unfolding cache_ok_def composed_def by blast
  then obtain mid where m: "translation_cache st' (t, rs, ''zh-CN'') = Some mid"
    "mid \<noteq> [] \<longrightarrow> translation_cache st' (mid, ''zh-CN'', tgt) = Some v"
    by blast
  have e: "expected caps t rs ''zh-CN'' = Some mid"
    using ok' m(1) by (rule cache_ok_value)
  have "mid = [] \<longrightarrow> v = []"
    using val e by (auto simp: expected_composed [OF co, of caps t] hop_def)
  with m e top show ?thesis by blast
qed


lemma expected_direct:
  "expected caps t ''en'' ''zh-CN'' = translate_en_zh caps t"
  "expected caps t ''zh-CN'' ''en'' = translate_zh_en caps t"
  "expected caps t ''zh-CN'' ''zh-TW'' = convert_s2t caps t"
  "expected caps t ''zh-TW'' ''zh-CN'' = convert_t2s caps t"
  by (simp_all add: expected_def invoke_def)

lemma invoke_direct:
  "snd (invoke caps ''en'' ''zh-CN'' t) = [Generate_en_zh t]"
  "snd (invoke caps ''zh-CN'' ''en'' t) = [Generate_zh_en t]"
  "snd (invoke caps ''zh-CN'' ''zh-TW'' t) = [Convert_s2t t]"
  "snd (invoke caps ''zh-TW'' ''zh-CN'' t) = [Convert_t2s t]"
  by (simp_all add: invoke_def)

lemma composed_pairs: "composed ''en'' ''zh-TW''" "composed ''zh-TW'' ''en''"
  by (simp_all add: composed_def)

lemma composed_summary:
  assumes ok: "cache_ok caps (translation_cache st)" and ne: "t \<noteq> []"
    and co: "composed s g"
  shows "fst (translate_text_process caps t s g st) = expected caps t s g
     \<and> (\<forall>v. fst (translate_text_process caps t s g st) = Some v \<longrightarrow>
          (\<exists>mid. expected caps t s ''zh-CN'' = Some mid
             \<and> translation_cache (snd (translate_text_process caps t s g st)) (t, s, ''zh-CN'')
                 = Some mid
             \<and> (mid \<noteq> [] \<longrightarrow>
                  translation_cache (snd (translate_text_process caps t s g st)) (mid, ''zh-CN'', g)
                    = Some v)
             \<and> translation_cache (snd (translate_text_process caps t s g st)) (t, s, g) = Some v))
     \<and> filter is_invocation (events_since st (snd (translate_text_process caps t s g st))) =
         (if translation_cache st (t, s, g) \<noteq> None then []
          else (if translation_cache st (t, s, ''zh-CN'') = None
                then snd (invoke caps s ''zh-CN'' t) else [])
             @ (case expected caps t s ''zh-CN'' of
                  None \<Rightarrow> []
                | Some mid \<Rightarrow>
                    if mid = [] \<or> translation_cache st (mid, ''zh-CN'', g) \<noteq> None then []
                    else snd (invoke caps ''zh-CN'' g mid)))"
proof -
  obtain r st' where c: "translate_text_process caps t s g st = (r, st')"
    by (cases "translate_text_process caps t s g st")
  have rs: "resolved caps t s = s"
    using hop1_facts(1) [OF co] .
  have a: "r = expected caps t s g"
    using call_ok(2) [OF c ok ne] rs by simp
  have b: "\<exists>mid. expected caps t s ''zh-CN'' = Some mid
             \<and> translation_cache st' (t, s, ''zh-CN'') = Some mid
             \<and> (mid \<noteq> [] \<longrightarrow> translation_cache st' (mid, ''zh-CN'', g) = Some v)
             \<and> translation_cache st' (t, s, g) = Some v" if "r = Some v" for v
    using composed_entries [OF ne rs co _ ok, of v st'] c that by blast
  obtain es where es: "trace st' = trace st @ es"
    "filter is_invocation es =
         (if translation_cache st (t, s, g) \<noteq> None then []
          else (if translation_cache st (t, s, ''zh-CN'') = None
                then snd (invoke caps s ''zh-CN'' t) else [])
             @ (case expected caps t s ''zh-CN'' of
                  None \<Rightarrow> []
                | Some mid \<Rightarrow>
                    if mid = [] \<or> translation_cache st (mid, ''zh-CN'', g) \<noteq> None then []
                    else snd (invoke caps ''zh-CN'' g mid)))"
    using composed_invocations [OF ne rs co c ok] by blast
  have d: "events_since st st' = es"
    using es(1) by (rule events_since_append)
  show ?thesis
    unfolding c fst_conv snd_conv d using a b es(2) by blast
qed


lemma expected_composed_pairs:
  "expected caps t ''en'' ''zh-TW'' = Option.bind (translate_en_zh caps t) (hop (convert_s2t caps))"
  "expected caps t ''zh-TW'' ''en'' = Option.bind (convert_t2s caps t) (hop (translate_zh_en caps))"
  by (simp_all add: expected_def)

text \<open>
  Claim C1, amended. In every reachable state and for every nonempty text, the pair
  \<open>(en, zh-TW)\<close> returns the output of the en-to-zh-CN model passed through the second
  hop: the zh-CN-to-zh-TW conversion of that output when it is nonempty, and the empty
  string when it is empty. On a miss of the outer key the call is the two recursive calls
  of lines 157-158 followed by the store of line 167. After a call that returned, the
  cache holds the first hop's entry, the second hop's entry when the intermediate text is
  nonempty, and the outer entry. The model is invoked only when the first hop's key was
  absent, and the converter only when the intermediate text is nonempty and the second
  hop's key was absent. The pair \<open>(zh-TW, en)\<close> does the same through the zh-TW-to-zh-CN
  conversion and the zh-CN-to-en model.
\<close>

theorem composed_pair_two_hops:
  assumes "reachable caps st" and "t \<noteq> []"
  shows "fst (translate_text_process caps t ''en'' ''zh-TW'' st)
           = Option.bind (translate_en_zh caps t) (hop (convert_s2t caps))
     \<and> (translation_cache st (t, ''en'', ''zh-TW'') = None \<longrightarrow>
          translate_text_process caps t ''en'' ''zh-TW'' st =
            (case translate_text_process caps t ''en'' ''zh-CN''
                    (log (Cache_lookup (t, ''en'', ''zh-TW'')) st) of
               (None, st1) \<Rightarrow> (None, st1)
             | (Some mid, st1) \<Rightarrow>
                 (case translate_text_process caps mid ''zh-CN'' ''zh-TW'' st1 of
                    (None, st2) \<Rightarrow> (None, st2)
                  | (Some r, st2) \<Rightarrow> (Some r, store (t, ''en'', ''zh-TW'') r st2))))
     \<and> (\<forall>v. fst (translate_text_process caps t ''en'' ''zh-TW'' st) = Some v \<longrightarrow>
          (\<exists>mid. translate_en_zh caps t = Some mid
             \<and> translation_cache (snd (translate_text_process caps t ''en'' ''zh-TW'' st))
                  (t, ''en'', ''zh-CN'') = Some mid
             \<and> (mid \<noteq> [] \<longrightarrow>
                  translation_cache (snd (translate_text_process caps t ''en'' ''zh-TW'' st))
                    (mid, ''zh-CN'', ''zh-TW'') = Some v)
             \<and> translation_cache (snd (translate_text_process caps t ''en'' ''zh-TW'' st))
                  (t, ''en'', ''zh-TW'') = Some v))
     \<and> filter is_invocation
          (events_since st (snd (translate_text_process caps t ''en'' ''zh-TW'' st))) =
         (if translation_cache st (t, ''en'', ''zh-TW'') \<noteq> None then []
          else (if translation_cache st (t, ''en'', ''zh-CN'') = None
                then [Generate_en_zh t] else [])
             @ (case translate_en_zh caps t of
                  None \<Rightarrow> []
                | Some mid \<Rightarrow>
                    if mid = [] \<or> translation_cache st (mid, ''zh-CN'', ''zh-TW'') \<noteq> None
                    then [] else [Convert_s2t mid]))
     \<and> fst (translate_text_process caps t ''zh-TW'' ''en'' st)
           = Option.bind (convert_t2s caps t) (hop (translate_zh_en caps))
     \<and> (translation_cache st (t, ''zh-TW'', ''en'') = None \<longrightarrow>
          translate_text_process caps t ''zh-TW'' ''en'' st =
            (case translate_text_process caps t ''zh-TW'' ''zh-CN''
                    (log (Cache_lookup (t, ''zh-TW'', ''en'')) st) of
               (None, st1) \<Rightarrow> (None, st1)
             | (Some mid, st1) \<Rightarrow>
                 (case translate_text_process caps mid ''zh-CN'' ''en'' st1 of
                    (None, st2) \<Rightarrow> (None, st2)
                  | (Some r, st2) \<Rightarrow> (Some r, store (t, ''zh-TW'', ''en'') r st2))))
     \<and> (\<forall>v. fst (translate_text_process caps t ''zh-TW'' ''en'' st) = Some v \<longrightarrow>
          (\<exists>mid. convert_t2s caps t = Some mid
             \<and> translation_cache (snd (translate_text_process caps t ''zh-TW'' ''en'' st))
                  (t, ''zh-TW'', ''zh-CN'') = Some mid
             \<and> (mid \<noteq> [] \<longrightarrow>
                  translation_cache (snd (translate_text_process caps t ''zh-TW'' ''en'' st))
                    (mid, ''zh-CN'', ''en'') = Some v)
             \<and> translation_cache (snd (translate_text_process caps t ''zh-TW'' ''en'' st))
                  (t, ''zh-TW'', ''en'') = Some v))
     \<and> filter is_invocation
          (events_since st (snd (translate_text_process caps t ''zh-TW'' ''en'' st))) =
         (if translation_cache st (t, ''zh-TW'', ''en'') \<noteq> None then []
          else (if translation_cache st (t, ''zh-TW'', ''zh-CN'') = None
                then [Convert_t2s t] else [])
             @ (case convert_t2s caps t of
                  None \<Rightarrow> []
                | Some mid \<Rightarrow>
                    if mid = [] \<or> translation_cache st (mid, ''zh-CN'', ''en'') \<noteq> None
                    then [] else [Generate_zh_en mid]))"
proof -
  have ok: "cache_ok caps (translation_cache st)"
    using assms(1) by (rule reachable_cache_ok)
  note a = composed_summary [OF ok assms(2) composed_pairs(1),
      unfolded expected_direct invoke_direct expected_composed_pairs]
  note b = composed_summary [OF ok assms(2) composed_pairs(2),
      unfolded expected_direct invoke_direct expected_composed_pairs]
  have c: "translation_cache st (t, ''en'', ''zh-TW'') = None \<longrightarrow>
          translate_text_process caps t ''en'' ''zh-TW'' st =
            (case translate_text_process caps t ''en'' ''zh-CN''
                    (log (Cache_lookup (t, ''en'', ''zh-TW'')) st) of
               (None, st1) \<Rightarrow> (None, st1)
             | (Some mid, st1) \<Rightarrow>
                 (case translate_text_process caps mid ''zh-CN'' ''zh-TW'' st1 of
                    (None, st2) \<Rightarrow> (None, st2)
                  | (Some r, st2) \<Rightarrow> (Some r, store (t, ''en'', ''zh-TW'') r st2)))"
    using ttp_miss_en_zhTW [OF assms(2), of caps "''en''" st]
    by (simp add: resolved_def)
  have d: "translation_cache st (t, ''zh-TW'', ''en'') = None \<longrightarrow>
          translate_text_process caps t ''zh-TW'' ''en'' st =
            (case translate_text_process caps t ''zh-TW'' ''zh-CN''
                    (log (Cache_lookup (t, ''zh-TW'', ''en'')) st) of
               (None, st1) \<Rightarrow> (None, st1)
             | (Some mid, st1) \<Rightarrow>
                 (case translate_text_process caps mid ''zh-CN'' ''en'' st1 of
                    (None, st2) \<Rightarrow> (None, st2)
                  | (Some r, st2) \<Rightarrow> (Some r, store (t, ''zh-TW'', ''en'') r st2)))"
    using ttp_miss_zhTW_en [OF assms(2), of caps "''zh-TW''" st]
    by (simp add: resolved_def)
  show ?thesis
    using a b c d by (intro conjI) blast+
qed


theorem composed_pair_two_hops_witness:
  "reachable stub_caps initial_state \<and> [0x68, 0x69] \<noteq> ([] :: pystr)
   \<and> fst (translate_text_process stub_caps [0x68, 0x69] ''en'' ''zh-TW'' initial_state)
       = Some [0x9AD4, 0x80B2]
   \<and> filter is_invocation
        (events_since initial_state
           (snd (translate_text_process stub_caps [0x68, 0x69] ''en'' ''zh-TW'' initial_state)))
       = [Generate_en_zh [0x68, 0x69], Convert_s2t [0x4F53, 0x80B2]]
   \<and> fst (translate_text_process stub_caps [0x9AD4] ''zh-TW'' ''en'' initial_state)
       = Some [0x68, 0x69]"
proof -
  have a: "reachable stub_caps initial_state"
    by (rule reachable_init)
  have b: "[0x68, 0x69] \<noteq> ([] :: pystr)" and b': "[0x9AD4] \<noteq> ([] :: pystr)"
    by simp_all
  note w = composed_pair_two_hops [OF a b]
  note w' = composed_pair_two_hops [OF a b']
  have c: "fst (translate_text_process stub_caps [0x68, 0x69] ''en'' ''zh-TW'' initial_state)
       = Some [0x9AD4, 0x80B2]"
    using w [THEN conjunct1] by (simp add: stub_caps_def hop_def)
  have d: "filter is_invocation
        (events_since initial_state
           (snd (translate_text_process stub_caps [0x68, 0x69] ''en'' ''zh-TW'' initial_state)))
       = [Generate_en_zh [0x68, 0x69], Convert_s2t [0x4F53, 0x80B2]]"
    using w [THEN conjunct2, THEN conjunct2, THEN conjunct2, THEN conjunct1]
    by (simp add: stub_caps_def initial_state_def)
  have e: "fst (translate_text_process stub_caps [0x9AD4] ''zh-TW'' ''en'' initial_state)
       = Some [0x68, 0x69]"
    using w' [THEN conjunct2, THEN conjunct2, THEN conjunct2, THEN conjunct2, THEN conjunct1]
    by (simp add: stub_caps_def hop_def)
  show ?thesis
    using a b c d e by (intro conjI)
qed

theorem empty_intermediate_skips_second_hop:
  "reachable silent_caps initial_state
   \<and> fst (translate_text_process silent_caps [0x20] ''en'' ''zh-TW'' initial_state) = Some []
   \<and> Option.bind (translate_en_zh silent_caps [0x20]) (convert_s2t silent_caps) = Some [0x3002]
   \<and> translation_cache
        (snd (translate_text_process silent_caps [0x20] ''en'' ''zh-TW'' initial_state))
        ([], ''zh-CN'', ''zh-TW'') = None
   \<and> trace (snd (translate_text_process silent_caps [0x20] ''en'' ''zh-TW'' initial_state))
       = [Cache_lookup ([0x20], ''en'', ''zh-TW''), Cache_lookup ([0x20], ''en'', ''zh-CN''),
          Generate_en_zh [0x20], Cache_store ([0x20], ''en'', ''zh-CN'') [],
          Cache_store ([0x20], ''en'', ''zh-TW'') []]"
proof -
  have "translate_text_process silent_caps [0x20] ''en'' ''zh-TW'' initial_state =
     (Some [],
      \<lparr>translation_cache =
         [([0x20], ''en'', ''zh-CN'') \<mapsto> [], ([0x20], ''en'', ''zh-TW'') \<mapsto> []],
       trace = [Cache_lookup ([0x20], ''en'', ''zh-TW''), Cache_lookup ([0x20], ''en'', ''zh-CN''),
          Generate_en_zh [0x20], Cache_store ([0x20], ''en'', ''zh-CN'') [],
          Cache_store ([0x20], ''en'', ''zh-TW'') []]\<rparr>)"
    by (simp add: run silent_caps_def)
  moreover have "Option.bind (translate_en_zh silent_caps [0x20]) (convert_s2t silent_caps)
                   = Some [0x3002]"
    by (simp add: silent_caps_def)
  ultimately show ?thesis
    by (simp add: reachable_init)
qed

end
